theory Spec2Isabelle
  imports Complex_Main "HOL-Library.Sublist" "HOL-Library.Log_Nat"
begin

section \<open>Pagination loop: \<open>TikTokScraper.scroll_and_load_videos\<close>\<close>

text \<open>
  One iteration of the \<open>while\<close> loop measures the visible items twice: before the scroll
  (\<open>initial_count\<close>) and after it (\<open>final_count\<close>). Both are lengths of the list that
  \<open>get_visible_video_elements\<close> returns, so they are naturals. The page is the environment:
  a run is driven by the list of what the successive iterations observe. \<open>Raised\<close> is an
  iteration in which the scroll (\<open>page.evaluate\<close>), one of the two waits or the rate limiter
  raises an \<open>Exception\<close>: it reaches the \<open>except\<close> clause of the function, which returns 0.
  A failure inside \<open>get_visible_video_elements\<close> is not such an iteration: that method
  catches it and returns the empty list, so the count measured is 0.
\<close>

datatype scan = Scan nat nat | Raised

text \<open>
  \<open>Returned v rest\<close>: the function has returned \<open>v\<close>, leaving the observations \<open>rest\<close>
  unused. \<open>Scanning videos_loaded no_new_videos_count\<close>: the observations are used up and
  the loop condition still holds, with these values of the two loop variables.
\<close>

datatype scroll_outcome = Returned nat "scan list" | Scanning nat nat

definition max_no_new_videos :: nat where
  "max_no_new_videos = 3"

fun scroll_loop :: "int \<Rightarrow> scan list \<Rightarrow> nat \<Rightarrow> nat \<Rightarrow> scroll_outcome" where
  "scroll_loop max_videos [] videos_loaded no_new_videos_count =
     (if int videos_loaded < max_videos \<and> no_new_videos_count < max_no_new_videos
      then Scanning videos_loaded no_new_videos_count
      else Returned videos_loaded [])"
| "scroll_loop max_videos (s # rest) videos_loaded no_new_videos_count =
     (if int videos_loaded < max_videos \<and> no_new_videos_count < max_no_new_videos
      then (case s of
              Raised \<Rightarrow> Returned 0 rest
            | Scan initial_count final_count \<Rightarrow>
                if final_count > initial_count
                then scroll_loop max_videos rest final_count 0
                else scroll_loop max_videos rest videos_loaded (no_new_videos_count + 1))
      else Returned videos_loaded (s # rest))"

definition scroll_and_load_videos :: "int \<Rightarrow> scan list \<Rightarrow> scroll_outcome" where
  "scroll_and_load_videos max_videos observations = scroll_loop max_videos observations 0 0"

text \<open>A scan in which the re-measured count did not increase.\<close>

fun no_growth :: "scan \<Rightarrow> bool" where
  "no_growth (Scan initial_count final_count) = (\<not> final_count > initial_count)"
| "no_growth Raised = False"

text \<open>A scan that raises nothing and whose re-measured count stays below the cap.\<close>

fun below_cap :: "int \<Rightarrow> scan \<Rightarrow> bool" where
  "below_cap max_videos (Scan initial_count final_count) = (int final_count < max_videos)"
| "below_cap max_videos Raised = False"

definition trailing_stalls :: "scan list \<Rightarrow> nat" where
  "trailing_stalls observations = length (takeWhile no_growth (rev observations))"

section \<open>Python string operations\<close>

text \<open>
  A Python \<open>str\<close> is modelled as a \<open>string\<close>: the list of its code points, each below 256.
  The exceptions that the modelled functions can meet are values of \<open>py_exception\<close>.
\<close>

datatype py_exception = ValueError | TypeError | OverflowError | IndexError

text \<open>\<open>sub in s\<close>: the substring test.\<close>

fun py_in :: "string \<Rightarrow> string \<Rightarrow> bool" where
  "py_in sub [] = (sub = [])"
| "py_in sub (c # cs) = (prefix sub (c # cs) \<or> py_in sub cs)"

text \<open>
  \<open>s.split(sep)\<close> for a separator that is not empty: the occurrences of \<open>sep\<close> are found
  from left to right and do not overlap. (Python raises \<open>ValueError\<close> on an empty separator;
  the source only splits at the literals \<open>"/video/"\<close>, \<open>"?"\<close> and \<open>"/"\<close>.) The result is
  never the empty list, so the last case of the \<open>case\<close> is never taken.
\<close>

function py_split :: "string \<Rightarrow> string \<Rightarrow> string list" where
  "py_split sep [] = [[]]"
| "py_split sep (c # cs) =
     (if sep \<noteq> [] \<and> prefix sep (c # cs)
      then [] # py_split sep (drop (length sep) (c # cs))
      else (case py_split sep cs of p # ps \<Rightarrow> (c # p) # ps | [] \<Rightarrow> [[c]]))"
  by pat_completeness auto
termination
  by (relation "measure (\<lambda>(sep, s). length s)") auto

text \<open>
  \<open>s.replace(old, new)\<close>: every occurrence of \<open>old\<close>, found from left to right without
  overlap, becomes \<open>new\<close>. With an empty \<open>old\<close> Python puts \<open>new\<close> before every character
  and at the end.
\<close>

function replace_occurrences :: "string \<Rightarrow> string \<Rightarrow> string \<Rightarrow> string" where
  "replace_occurrences old new [] = []"
| "replace_occurrences old new (c # cs) =
     (if old \<noteq> [] \<and> prefix old (c # cs)
      then new @ replace_occurrences old new (drop (length old) (c # cs))
      else c # replace_occurrences old new cs)"
  by pat_completeness auto
termination
  by (relation "measure (\<lambda>(old, new, s). length s)") auto

definition py_replace :: "string \<Rightarrow> string \<Rightarrow> string \<Rightarrow> string" where
  "py_replace old new s =
     (if old = [] then new @ concat (map (\<lambda>c. c # new) s) else replace_occurrences old new s)"

text \<open>\<open>xs[i]\<close>: a negative index counts from the end; out of range raises \<open>IndexError\<close>.\<close>

definition py_index :: "'a list \<Rightarrow> int \<Rightarrow> py_exception + 'a" where
  "py_index xs i =
     (if 0 \<le> i \<and> i < int (length xs) then Inr (xs ! nat i)
      else if i < 0 \<and> - int (length xs) \<le> i then Inr (xs ! nat (int (length xs) + i))
      else Inl IndexError)"

text \<open>
  \<open>str.isdigit\<close>: the string is not empty and every character is a digit. Below 256 the
  digits are \<open>0\<close> to \<open>9\<close> and the superscripts two, three and one (178, 179, 185).
\<close>

definition ascii_digit :: "char \<Rightarrow> bool" where
  "ascii_digit c = (48 \<le> (of_char c :: nat) \<and> (of_char c :: nat) \<le> 57)"

definition isdigit_char :: "char \<Rightarrow> bool" where
  "isdigit_char c = (ascii_digit c \<or> (of_char c :: nat) \<in> {178, 179, 185})"

definition py_isdigit :: "string \<Rightarrow> bool" where
  "py_isdigit s = (s \<noteq> [] \<and> list_all isdigit_char s)"

section \<open>Deriving the video identifier from a URL\<close>

text \<open>\<open>CSVExporter._extract_video_id\<close>. Its \<open>except\<close> clause ends in \<open>return ""\<close>.\<close>

definition CSVExporter_extract_video_id :: "string \<Rightarrow> string" where
  "CSVExporter_extract_video_id url =
     (if url = [] then []
      else if py_in ''/video/'' url then
        (case py_index (py_split ''/video/'' url) 1 of
           Inl e \<Rightarrow> []
         | Inr part \<Rightarrow>
             (case py_index (py_split ''?'' part) 0 of
                Inl e \<Rightarrow> []
              | Inr video_id \<Rightarrow> video_id))
      else if py_in ''tiktok.com'' url then
        (case find (\<lambda>part. py_isdigit part \<and> length part > 10) (py_split ''/'' url) of
           Some part \<Rightarrow> part
         | None \<Rightarrow> [])
      else [])"


text \<open>
  \<open>TikTokScraper.extract_video_data\<close> builds the dictionary \<open>video_data\<close> of one grid item.
  What the selector chains find in the element is the environment's: the link
  (\<open>extract_video_url\<close>), the view count text (\<open>extract_views_from_grid\<close>) and the thumbnail
  (\<open>extract_thumbnail\<close>). The identifier is \<open>video_url.split('/')[-1]\<close>.
\<close>

record video_data =
  video_id :: string
  video_url :: string
  views_count :: string
  thumbnail_url :: string
  account_username :: string
  scraped_at :: string
  description :: string
  likes_count :: string
  comments_count :: string

record video_element =
  found_url :: "string option"
  found_views :: string
  found_thumbnail :: string

definition extract_video_data :: "string \<Rightarrow> string \<Rightarrow> video_element \<Rightarrow> video_data option" where
  "extract_video_data tiktok_username now video_element =
     (case found_url video_element of
        None \<Rightarrow> None
      | Some url \<Rightarrow>
          if url = [] then None
          else (case py_index (py_split ''/'' url) (- 1) of
                  Inl e \<Rightarrow> None
                | Inr last_part \<Rightarrow>
                    Some \<lparr>video_id = last_part, video_url = url,
                          views_count = found_views video_element,
                          thumbnail_url = found_thumbnail video_element,
                          account_username = tiktok_username, scraped_at = now,
                          description = [], likes_count = ''0'', comments_count = ''0''\<rparr>))"

text \<open>Python's \<open>get_tiktok_profile_url\<close>.\<close>

definition get_tiktok_profile_url :: "string \<Rightarrow> string" where
  "get_tiktok_profile_url username = ''https://www.tiktok.com/@'' @ py_replace ''@'' [] username"

section \<open>Numbers: \<open>str.upper\<close>, \<open>int\<close>, \<open>float\<close> and binary64 arithmetic\<close>

text \<open>
  \<open>str.upper\<close> on code points below 256: the letters \<open>a\<close> to \<open>z\<close> and the accented letters
  224 to 254 (but the division sign 247) move down by 32, and the sharp s (223) becomes \<open>SS\<close>.
  The upper-case forms of the micro sign (181) and of y with diaeresis (255) lie beyond 255;
  the model leaves these two characters as they are. Neither they nor their upper-case forms
  are whitespace, digits, signs, or letters that \<open>int\<close>, \<open>float\<close> or \<open>format_number\<close> look
  for, so no result below depends on it.
\<close>

definition upper_char :: "char \<Rightarrow> string" where
  "upper_char c =
     (let n = (of_char c :: nat) in
      if 97 \<le> n \<and> n \<le> 122 then [char_of (n - 32)]
      else if 224 \<le> n \<and> n \<le> 254 \<and> n \<noteq> 247 then [char_of (n - 32)]
      else if n = 223 then ''SS''
      else [c])"

definition py_upper :: "string \<Rightarrow> string" where
  "py_upper s = concat (map upper_char s)"

text \<open>
  The whitespace of \<open>str.split\<close>, \<open>str.strip\<close>, \<open>int\<close> and \<open>float\<close>: below 256 these are
  the code points 9 to 13, 28 to 32, 133 and 160.
\<close>

definition py_isspace :: "char \<Rightarrow> bool" where
  "py_isspace c =
     (let n = (of_char c :: nat) in (9 \<le> n \<and> n \<le> 13) \<or> (28 \<le> n \<and> n \<le> 32) \<or> n = 133 \<or> n = 160)"

definition py_strip :: "string \<Rightarrow> string" where
  "py_strip s = rev (dropWhile py_isspace (rev (dropWhile py_isspace s)))"

definition digit_value :: "char \<Rightarrow> int" where
  "digit_value c = (of_char c :: int) - 48"

definition digits_value :: "string \<Rightarrow> int" where
  "digits_value ds = foldl (\<lambda>n c. 10 * n + digit_value c) 0 ds"

text \<open>
  Underscores in a numeric literal. \<open>float\<close> accepts an underscore only between two digits
  and parses the text without them; \<open>prev\<close> is the character before, if any.
\<close>

fun drop_underscores :: "char option \<Rightarrow> string \<Rightarrow> string option" where
  "drop_underscores prev [] = (if prev = Some CHR ''_'' then None else Some [])"
| "drop_underscores prev (c # cs) =
     (if c = CHR ''_''
      then (case prev of
              Some p \<Rightarrow> if ascii_digit p then drop_underscores (Some c) cs else None
            | None \<Rightarrow> None)
      else if prev = Some CHR ''_'' \<and> \<not> ascii_digit c then None
      else map_option ((#) c) (drop_underscores (Some c) cs))"

text \<open>
  \<open>int(s)\<close> in base 10: whitespace around, an optional sign, then digits, single
  underscores allowed between digits. More digits than the interpreter's limit
  (\<open>sys.int_info.default_max_str_digits\<close>, 4300) raise \<open>ValueError\<close> like a malformed text.
\<close>

definition int_max_str_digits :: nat where
  "int_max_str_digits = 4300"

definition unsigned_int_literal :: "string \<Rightarrow> int option" where
  "unsigned_int_literal s =
     (case s of
        [] \<Rightarrow> None
      | c # cs \<Rightarrow>
          if \<not> ascii_digit c then None
          else (case drop_underscores None s of
                  None \<Rightarrow> None
                | Some ds \<Rightarrow>
                    if list_all ascii_digit ds \<and> length ds \<le> int_max_str_digits
                    then Some (digits_value ds) else None))"

definition py_int :: "string \<Rightarrow> py_exception + int" where
  "py_int s =
     (let t = py_strip s;
          (negative, body) =
             (case t of
                c # cs \<Rightarrow> if c = CHR ''-'' then (True, cs) else if c = CHR ''+'' then (False, cs)
                          else (False, t)
              | [] \<Rightarrow> (False, t))
      in case unsigned_int_literal body of
           None \<Rightarrow> Inl ValueError
         | Some n \<Rightarrow> Inr (if negative then - n else n))"

text \<open>
  A binary64 value: a finite number, kept as the rational it denotes, an infinity or a NaN.
  The two zeros are one value here; \<open>int\<close> maps both to 0.
\<close>

datatype fp = Finite rat | PosInf | NegInf | NaN

text \<open>\<open>floor_log2 x\<close> for \<open>x > 0\<close>: the exponent \<open>e\<close> with \<open>2 ^ e \<le> x < 2 ^ (e + 1)\<close>.\<close>

definition floor_log2 :: "rat \<Rightarrow> int" where
  "floor_log2 x =
     (let (n, d) = quotient_of x;
          e0 = bitlen n - bitlen d
      in if 2 powi e0 \<le> x then e0 else e0 - 1)"

definition round_half_even :: "rat \<Rightarrow> int" where
  "round_half_even x =
     (let f = \<lfloor>x\<rfloor>; r = x - of_int f
      in if r < 1 / 2 then f else if 1 / 2 < r then f + 1 else if even f then f else f + 1)"

text \<open>
  Rounding a rational to binary64, to nearest with ties to even: 53 significant bits, the
  spacing never below \<open>2 ^ - 1074\<close> (subnormal numbers), and an infinity when the rounded
  magnitude reaches \<open>2 ^ 1024\<close>.
\<close>

definition round_binary64 :: "rat \<Rightarrow> fp" where
  "round_binary64 x =
     (if x = 0 then Finite 0
      else
        let a = \<bar>x\<bar>;
            e = max (floor_log2 a) (- 1022);
            ulp = 2 powi (e - 52);
            r = of_int (round_half_even (a / ulp)) * ulp
        in if 2 powi 1024 \<le> r then (if x < 0 then NegInf else PosInf)
           else Finite (if x < 0 then - r else r))"

text \<open>
  The text of a decimal literal without its sign: digits, an optional point and digits, at
  least one digit in all, and an optional exponent. The result is the exact value.
\<close>

definition exponent_part :: "string \<Rightarrow> int option" where
  "exponent_part s =
     (case s of
        [] \<Rightarrow> Some 0
      | c # cs \<Rightarrow>
          if c = CHR ''e'' \<or> c = CHR ''E'' then
            (let (negative, ds) =
                   (case cs of
                      d # ds' \<Rightarrow> if d = CHR ''-'' then (True, ds') else if d = CHR ''+'' then (False, ds')
                                  else (False, cs)
                    | [] \<Rightarrow> (False, cs))
             in if ds \<noteq> [] \<and> list_all ascii_digit ds
                then Some (if negative then - digits_value ds else digits_value ds)
                else None)
          else None)"

definition decimal_literal :: "string \<Rightarrow> rat option" where
  "decimal_literal s =
     (let int_digits = takeWhile ascii_digit s;
          after_int = dropWhile ascii_digit s;
          (frac_digits, after_frac) =
             (case after_int of
                c # cs \<Rightarrow> if c = CHR ''.'' then (takeWhile ascii_digit cs, dropWhile ascii_digit cs)
                          else ([], after_int)
              | [] \<Rightarrow> ([], after_int))
      in if int_digits = [] \<and> frac_digits = [] then None
         else (case exponent_part after_frac of
                 None \<Rightarrow> None
               | Some ex \<Rightarrow>
                   Some (of_int (digits_value (int_digits @ frac_digits))
                         * 10 powi (ex - int (length frac_digits)))))"

text \<open>
  \<open>float(s)\<close>: underscores are checked and dropped, whitespace around is stripped, then an
  optional sign and either \<open>inf\<close>, \<open>infinity\<close> or \<open>nan\<close> in any case, or a decimal literal,
  whose value is rounded to binary64. A text of any other form raises \<open>ValueError\<close>.
\<close>

definition py_float :: "string \<Rightarrow> py_exception + fp" where
  "py_float s =
     (case (if CHR ''_'' \<in> set s then drop_underscores None s else Some s) of
        None \<Rightarrow> Inl ValueError
      | Some u \<Rightarrow>
          (let t = py_strip u;
               (negative, body) =
                  (case t of
                     c # cs \<Rightarrow> if c = CHR ''-'' then (True, cs) else if c = CHR ''+'' then (False, cs)
                               else (False, t)
                   | [] \<Rightarrow> (False, t));
               name = py_upper body
           in if name = ''INF'' \<or> name = ''INFINITY'' then Inr (if negative then NegInf else PosInf)
              else if name = ''NAN'' then Inr NaN
              else (case decimal_literal body of
                      None \<Rightarrow> Inl ValueError
                    | Some q \<Rightarrow> Inr (round_binary64 (if negative then - q else q)))))"

text \<open>
  \<open>x * c\<close> for a float \<open>x\<close> and an integer \<open>c\<close> that binary64 holds exactly (1000,
  1000000 and 1000000000, which are below \<open>2 ^ 53\<close>, and the powers of two below \<open>2 ^ 1024\<close>):
  the integer converts without rounding, and the result is the exact product, rounded.
\<close>

definition fp_times_int :: "fp \<Rightarrow> int \<Rightarrow> fp" where
  "fp_times_int x c =
     (case x of
        Finite q \<Rightarrow> round_binary64 (q * of_int c)
      | PosInf \<Rightarrow> if 0 < c then PosInf else if c < 0 then NegInf else NaN
      | NegInf \<Rightarrow> if 0 < c then NegInf else if c < 0 then PosInf else NaN
      | NaN \<Rightarrow> NaN)"

text \<open>\<open>int(x)\<close> for a float: truncation towards zero; an infinity and a NaN raise.\<close>

definition int_of_fp :: "fp \<Rightarrow> py_exception + int" where
  "int_of_fp x =
     (case x of
        Finite q \<Rightarrow> Inr (if 0 \<le> q then \<lfloor>q\<rfloor> else \<lceil>q\<rceil>)
      | PosInf \<Rightarrow> Inl OverflowError
      | NegInf \<Rightarrow> Inl OverflowError
      | NaN \<Rightarrow> Inl ValueError)"

text \<open>A float that is not negative: a finite value from 0 up, the positive infinity, or a NaN.\<close>

fun fp_nonneg :: "fp \<Rightarrow> bool" where
  "fp_nonneg (Finite q) = (0 \<le> q)"
| "fp_nonneg PosInf = True"
| "fp_nonneg NegInf = False"
| "fp_nonneg NaN = True"

section \<open>The numeric normalizer: \<open>format_number\<close>\<close>

definition scaled_float :: "string \<Rightarrow> int \<Rightarrow> py_exception + int" where
  "scaled_float s c =
     (case py_float s of
        Inl e \<Rightarrow> Inl e
      | Inr x \<Rightarrow> int_of_fp (fp_times_int x c))"

text \<open>
  The body of the \<open>try\<close>, on the text already upper-cased and freed of commas and spaces.
\<close>

definition convert_count :: "string \<Rightarrow> py_exception + int" where
  "convert_count text =
     (if py_in ''K'' text then scaled_float (py_replace ''K'' [] text) 1000
      else if py_in ''M'' text then scaled_float (py_replace ''M'' [] text) 1000000
      else if py_in ''B'' text then scaled_float (py_replace ''B'' [] text) 1000000000
      else py_int text)"

text \<open>
  \<open>format_number\<close>: \<open>Inr n\<close> when it returns \<open>n\<close>, \<open>Inl e\<close> when the exception \<open>e\<close> leaves it.
  The \<open>except\<close> clause catches \<open>ValueError\<close> and \<open>TypeError\<close> only.
\<close>

definition format_number :: "string \<Rightarrow> py_exception + int" where
  "format_number text =
     (if text = [] then Inr 0
      else (case convert_count (py_replace '' '' [] (py_replace '','' [] (py_upper text))) of
              Inl ValueError \<Rightarrow> Inr 0
            | Inl TypeError \<Rightarrow> Inr 0
            | Inl e \<Rightarrow> Inl e
            | Inr n \<Rightarrow> Inr n))"

section \<open>Retry with exponential backoff: \<open>RetryHandler.execute_with_retry\<close>\<close>

text \<open>
  The operation \<open>func\<close> is the environment's: \<open>func k\<close> is what its invocation number \<open>k\<close>
  (from 0) does. It returns a value, or raises an \<open>Exception\<close>, which the \<open>except\<close> clause
  catches, or raises a \<open>BaseException\<close> that is no \<open>Exception\<close> (\<open>KeyboardInterrupt\<close>,
  \<open>CancelledError\<close>), which the clause lets through.
\<close>

datatype ('e, 'a) attempt_result = Returns 'a | Raises 'e | Raises_base 'e

text \<open>
  What leaves \<open>execute_with_retry\<close> when it does not return: an exception of the operation;
  the \<open>TypeError\<close> of \<open>raise last_exception\<close> when \<open>last_exception\<close> is still \<open>None\<close>
  (\<open>max_retries \<le> 0\<close>); or the \<open>OverflowError\<close> of the delay computation below.
\<close>

datatype 'e raised = Operation_error 'e | TypeError_raised | OverflowError_raised

text \<open>
  A run is the sequence of what happens, in order: \<open>Invoke k\<close> is invocation \<open>k\<close> of the
  operation, \<open>Sleep d\<close> a call \<open>asyncio.sleep(d)\<close>; and what the caller sees at the end.
\<close>

datatype retry_event = Invoke nat | Sleep fp

record ('e, 'a) retry_run =
  outcome :: "'e raised + 'a"
  events :: "retry_event list"

text \<open>
  \<open>self.base_delay * (2 ** attempt)\<close> with a float \<open>base_delay\<close> (the default is \<open>1.0\<close>): the
  integer \<open>2 ** attempt\<close> is converted to a float, which raises \<open>OverflowError\<close> from
  \<open>2 ** 1024\<close> on, and the product is rounded.
\<close>

definition backoff_delay :: "fp \<Rightarrow> nat \<Rightarrow> py_exception + fp" where
  "backoff_delay base_delay attempt =
     (if 1024 \<le> attempt then Inl OverflowError
      else Inr (fp_times_int base_delay (2 ^ attempt)))"

function retry_loop ::
  "(nat \<Rightarrow> ('e, 'a) attempt_result) \<Rightarrow> int \<Rightarrow> fp \<Rightarrow> nat \<Rightarrow> 'e option \<Rightarrow> retry_event list
     \<Rightarrow> ('e, 'a) retry_run"
where
  "retry_loop func max_retries base_delay attempt last_exception evs =
     (if int attempt < max_retries then
        (case func attempt of
           Returns v \<Rightarrow> \<lparr>outcome = Inr v, events = evs @ [Invoke attempt]\<rparr>
         | Raises_base e \<Rightarrow> \<lparr>outcome = Inl (Operation_error e), events = evs @ [Invoke attempt]\<rparr>
         | Raises e \<Rightarrow>
             if int attempt < max_retries - 1
             then (case backoff_delay base_delay attempt of
                     Inl overflow \<Rightarrow>
                       \<lparr>outcome = Inl OverflowError_raised, events = evs @ [Invoke attempt]\<rparr>
                   | Inr delay \<Rightarrow>
                       retry_loop func max_retries base_delay (attempt + 1) (Some e)
                         (evs @ [Invoke attempt, Sleep delay]))
             else retry_loop func max_retries base_delay (attempt + 1) (Some e)
                    (evs @ [Invoke attempt]))
      else \<lparr>outcome = Inl (case last_exception of
                              None \<Rightarrow> TypeError_raised
                            | Some e \<Rightarrow> Operation_error e),
            events = evs\<rparr>)"
  by pat_completeness auto
termination
  by (relation "measure (\<lambda>(func, max_retries, base_delay, attempt, rest). nat (max_retries - int attempt))")
    auto

definition execute_with_retry ::
  "(nat \<Rightarrow> ('e, 'a) attempt_result) \<Rightarrow> int \<Rightarrow> fp \<Rightarrow> ('e, 'a) retry_run" where
  "execute_with_retry func max_retries base_delay =
     retry_loop func max_retries base_delay 0 None []"

section \<open>The CSV exporter: \<open>clean_text\<close>, \<open>_process_video_data\<close>, \<open>add_video_data\<close>\<close>

text \<open>\<open>text.split()\<close>: the maximal runs of characters that are not whitespace.\<close>

function py_split_whitespace :: "string \<Rightarrow> string list" where
  "py_split_whitespace s =
     (case dropWhile py_isspace s of
        [] \<Rightarrow> []
      | c # cs \<Rightarrow>
          (c # takeWhile (\<lambda>x. \<not> py_isspace x) cs)
            # py_split_whitespace (dropWhile (\<lambda>x. \<not> py_isspace x) cs))"
  by pat_completeness auto
termination
proof (relation "measure length", goal_cases)
  case 1
  show ?case by simp
next
  case (2 s c cs)
  have "length (dropWhile (\<lambda>x. \<not> py_isspace x) cs) \<le> length cs"
    by (rule length_dropWhile_le)
  moreover have "length (c # cs) \<le> length s"
    using length_dropWhile_le[of py_isspace s] 2 by simp
  ultimately show ?case by simp
qed

fun py_join :: "string \<Rightarrow> string list \<Rightarrow> string" where
  "py_join sep [] = []"
| "py_join sep [w] = w"
| "py_join sep (w # ws) = w @ sep @ py_join sep ws"

definition clean_text :: "string \<Rightarrow> string" where
  "clean_text text =
     (if text = [] then [] else py_strip (py_join '' '' (py_split_whitespace text)))"

text \<open>
  The row that \<open>_process_video_data\<close> builds from the dictionary \<open>raw_data\<close>; the three counts
  are integers. \<open>raw_data.get(key, default)\<close> on a dictionary without the key is the record
  with the default in that field. \<open>tiktok_username\<close> is \<open>config.tiktok_username\<close> and \<open>now\<close>
  what \<open>datetime.now().isoformat()\<close> gives. \<open>format_number\<close> can raise, and so can this
  method.
\<close>

record csv_row =
  row_video_id :: string
  row_video_url :: string
  row_description :: string
  row_thumbnail_url :: string
  row_views_count :: int
  row_likes_count :: int
  row_comments_count :: int
  row_scraped_at :: string
  row_account_username :: string

definition process_video_data :: "string \<Rightarrow> string \<Rightarrow> video_data \<Rightarrow> py_exception + csv_row" where
  "process_video_data tiktok_username now raw_data =
     (case format_number (views_count raw_data) of
        Inl e \<Rightarrow> Inl e
      | Inr views \<Rightarrow>
          (case format_number (likes_count raw_data) of
             Inl e \<Rightarrow> Inl e
           | Inr likes \<Rightarrow>
               (case format_number (comments_count raw_data) of
                  Inl e \<Rightarrow> Inl e
                | Inr comments \<Rightarrow>
                    Inr \<lparr>row_video_id = CSVExporter_extract_video_id (video_url raw_data),
                         row_video_url = video_url raw_data,
                         row_description = clean_text (description raw_data),
                         row_thumbnail_url = thumbnail_url raw_data,
                         row_views_count = views,
                         row_likes_count = likes,
                         row_comments_count = comments,
                         row_scraped_at = now,
                         row_account_username = tiktok_username\<rparr>)))"

text \<open>
  \<open>add_video_data\<close> on the list \<open>self.data\<close>: the new list and the Boolean returned. A
  dictionary without a URL is refused; an exception of \<open>_process_video_data\<close> is caught and
  the list stays as it was.
\<close>

definition add_video_data ::
  "string \<Rightarrow> string \<Rightarrow> csv_row list \<Rightarrow> video_data \<Rightarrow> csv_row list \<times> bool" where
  "add_video_data tiktok_username now data vd =
     (if video_url vd = [] then (data, False)
      else (case process_video_data tiktok_username now vd of
              Inl e \<Rightarrow> (data, False)
            | Inr processed_data \<Rightarrow> (data @ [processed_data], True)))"

section \<open>Properties of the pagination loop\<close>

lemma scroll_loop_exit:
  "\<not> (int vl < mx \<and> nn < max_no_new_videos) \<Longrightarrow> scroll_loop mx tr vl nn = Returned vl tr"
  by (cases tr) auto

lemma scroll_loop_append:
  "scroll_loop mx (xs @ ys) vl nn =
     (case scroll_loop mx xs vl nn of
        Returned v r \<Rightarrow> Returned v (r @ ys)
      | Scanning vl' nn' \<Rightarrow> scroll_loop mx ys vl' nn')"
proof (induction xs arbitrary: vl nn)
  case Nil
  show ?case by (simp add: scroll_loop_exit)
next
  case (Cons s xs)
  show ?case by (cases s) (simp_all add: Cons.IH)
qed

lemma scroll_loop_Scanning_inv:
  "scroll_loop mx tr vl nn = Scanning v n \<Longrightarrow> int v < mx \<and> n < max_no_new_videos"
proof (induction tr arbitrary: vl nn)
  case Nil
  then show ?case by (simp split: if_splits)
next
  case (Cons s tr)
  then show ?case by (cases s) (auto split: if_splits)
qed

lemma trailing_stalls_snoc:
  "trailing_stalls (tr @ [s]) = (if no_growth s then Suc (trailing_stalls tr) else 0)"
  by (simp add: trailing_stalls_def)

lemma trailing_stalls_two:
  "2 \<le> trailing_stalls tr \<Longrightarrow> \<exists>pre a b. tr = pre @ [a, b] \<and> no_growth a \<and> no_growth b"
proof (induction tr rule: rev_induct)
  case Nil
  then show ?case by (simp add: trailing_stalls_def)
next
  case (snoc b tr)
  then have b: "no_growth b" and one: "1 \<le> trailing_stalls tr"
    by (auto simp: trailing_stalls_snoc split: if_splits)
  then obtain pre a where "tr = pre @ [a]" "no_growth a"
    by (cases tr rule: rev_cases) (auto simp: trailing_stalls_snoc trailing_stalls_def split: if_splits)
  with b show ?case by auto
qed

lemma scroll_loop_stall_count:
  assumes "\<forall>s \<in> set tr. below_cap mx s" and "0 < mx"
  shows "(\<forall>v n. scroll_and_load_videos mx tr = Scanning v n \<longrightarrow> n = trailing_stalls tr)
       \<and> (\<forall>v rest. scroll_and_load_videos mx tr = Returned v rest \<longrightarrow>
            (\<exists>pre a b c. tr = pre @ [a, b, c] @ rest \<and> no_growth a \<and> no_growth b \<and> no_growth c
               \<and> scroll_and_load_videos mx (pre @ [a, b]) = Scanning v 2))"
  using assms(1)
proof (induction tr rule: rev_induct)
  case Nil
  with assms(2) show ?case
    by (simp add: scroll_and_load_videos_def trailing_stalls_def max_no_new_videos_def)
next
  case (snoc s tr)
  then have IH1: "\<And>v n. scroll_and_load_videos mx tr = Scanning v n \<Longrightarrow> n = trailing_stalls tr"
    and IH2: "\<And>v rest. scroll_and_load_videos mx tr = Returned v rest \<Longrightarrow>
            (\<exists>pre a b c. tr = pre @ [a, b, c] @ rest \<and> no_growth a \<and> no_growth b \<and> no_growth c
               \<and> scroll_and_load_videos mx (pre @ [a, b]) = Scanning v 2)"
    and s: "below_cap mx s"
    by auto
  from s obtain i f where sf: "s = Scan i f" "int f < mx" by (cases s) auto
  show ?case
  proof (cases "scroll_and_load_videos mx tr")
    case (Returned v r)
    from IH2[OF this] obtain pre a b c where
      "tr = pre @ [a, b, c] @ r" "no_growth a" "no_growth b" "no_growth c"
      "scroll_and_load_videos mx (pre @ [a, b]) = Scanning v 2" by blast
    moreover have "scroll_and_load_videos mx (tr @ [s]) = Returned v (r @ [s])"
      using Returned by (simp add: scroll_and_load_videos_def scroll_loop_append)
    ultimately show ?thesis by auto
  next
    case (Scanning vl nn)
    have inv: "int vl < mx" "nn < 3"
      using scroll_loop_Scanning_inv[of mx tr 0 0 vl nn] Scanning
      by (simp_all add: scroll_and_load_videos_def max_no_new_videos_def)
    have nn: "nn = trailing_stalls tr" using IH1[OF Scanning] .
    have step: "scroll_and_load_videos mx (tr @ [s]) = scroll_loop mx [s] vl nn"
      using Scanning by (simp add: scroll_and_load_videos_def scroll_loop_append)
    show ?thesis
    proof (cases "f > i")
      case True
      then have "scroll_and_load_videos mx (tr @ [s]) = Scanning f 0"
        using step inv sf by (simp add: max_no_new_videos_def)
      moreover have "trailing_stalls (tr @ [s]) = 0"
        using True sf by (simp add: trailing_stalls_snoc)
      ultimately show ?thesis by simp
    next
      case False
      then have ts: "trailing_stalls (tr @ [s]) = Suc nn"
        using sf nn by (simp add: trailing_stalls_snoc)
      show ?thesis
      proof (cases "nn = 2")
        case True
        then have ret: "scroll_and_load_videos mx (tr @ [s]) = Returned vl []"
          using step inv sf False by (simp add: max_no_new_videos_def)
        from True nn obtain pre a b where pre: "tr = pre @ [a, b]" "no_growth a" "no_growth b"
          using trailing_stalls_two[of tr] by auto
        have "no_growth s" using False sf by simp
        with pre Scanning True ret show ?thesis by auto
      next
        case nn2: False
        then have "scroll_and_load_videos mx (tr @ [s]) = Scanning vl (Suc nn)"
          using step inv sf False by (simp add: max_no_new_videos_def)
        with ts show ?thesis by simp
      qed
    qed
  qed
qed

lemma scroll_three_stalls_return:
  assumes "scroll_and_load_videos mx pre = Scanning v n"
    and "no_growth a" "no_growth b" "no_growth c"
  shows "\<exists>rest'. scroll_and_load_videos mx (pre @ [a, b, c] @ rest) = Returned v rest' \<and> suffix rest rest'"
proof -
  have inv: "int v < mx" "n < 3"
    using scroll_loop_Scanning_inv[of mx pre 0 0 v n] assms(1)
    by (simp_all add: scroll_and_load_videos_def max_no_new_videos_def)
  obtain ia fa ib fb ic fc where s: "a = Scan ia fa" "b = Scan ib fb" "c = Scan ic fc"
    "\<not> fa > ia" "\<not> fb > ib" "\<not> fc > ic"
    using assms(2-4) by (cases a; cases b; cases c) auto
  have step: "scroll_and_load_videos mx (pre @ [a, b, c] @ rest) = scroll_loop mx ([a, b, c] @ rest) v n"
    using assms(1) by (simp add: scroll_and_load_videos_def scroll_loop_append)
  from inv(2) consider "n = 0" | "n = 1" | "n = 2" by linarith
  then show ?thesis
  proof cases
    case 1
    then have "scroll_loop mx ([a, b, c] @ rest) v n = Returned v rest"
      using inv s by (simp add: max_no_new_videos_def scroll_loop_exit)
    then show ?thesis using step by simp
  next
    case 2
    then have "scroll_loop mx ([a, b, c] @ rest) v n = Returned v (c # rest)"
      using inv s by (simp add: max_no_new_videos_def scroll_loop_exit)
    then show ?thesis using step by (simp add: suffix_Cons)
  next
    case 3
    then have "scroll_loop mx ([a, b, c] @ rest) v n = Returned v (b # c # rest)"
      using inv s by (simp add: max_no_new_videos_def scroll_loop_exit)
    then show ?thesis using step by (simp add: suffix_Cons)
  qed
qed

lemma scroll_growth_step:
  assumes "scroll_and_load_videos mx tr = Scanning v n" and "f > i"
  shows "scroll_and_load_videos mx (tr @ Scan i f # rest) = scroll_loop mx rest f 0"
proof -
  have inv: "int v < mx" "n < 3"
    using scroll_loop_Scanning_inv[of mx tr 0 0 v n] assms(1)
    by (simp_all add: scroll_and_load_videos_def max_no_new_videos_def)
  show ?thesis using assms inv
    by (simp add: scroll_and_load_videos_def scroll_loop_append max_no_new_videos_def)
qed

lemma scroll_raise_step:
  assumes "scroll_and_load_videos mx tr = Scanning v n"
  shows "scroll_and_load_videos mx (tr @ Raised # rest) = Returned 0 rest"
proof -
  have inv: "int v < mx" "n < max_no_new_videos"
    using scroll_loop_Scanning_inv[of mx tr 0 0 v n] assms
    by (simp_all add: scroll_and_load_videos_def)
  show ?thesis using assms inv
    by (simp add: scroll_and_load_videos_def scroll_loop_append)
qed

text \<open>
  Claim C1 (as amended). Let \<open>max_videos\<close> be positive, and take observations \<open>tr\<close> in which
  nothing raises and every re-measured count stays below \<open>max_videos\<close>. (a) If the loop has
  returned on \<open>tr\<close>, the observations it used end with three consecutive scans without
  growth, and after the second of them it was still scanning with the stall counter at 2: it
  stops at the third such scan, not earlier and not later. (b) From the scanning state after
  \<open>tr\<close>, three consecutive scans without growth make it return. (c) A scan whose count
  grows, staying below the cap, leaves the loop scanning with the stall counter back at 0.
  (d) A scan whose count grows to \<open>max_videos\<close> or more makes the function return that count at
  once. (e) An iteration in which the scroll, a wait or the rate limiter raises makes the
  function return 0 at once, whatever had been loaded.
\<close>

theorem scroll_stops_at_third_stall:
  assumes "0 < mx" and "\<forall>s \<in> set tr. below_cap mx s"
  shows "(scroll_and_load_videos mx tr = Returned v rest \<longrightarrow>
            (\<exists>pre a b c. tr = pre @ [a, b, c] @ rest \<and> no_growth a \<and> no_growth b \<and> no_growth c
               \<and> scroll_and_load_videos mx (pre @ [a, b]) = Scanning v 2))
       \<and> (scroll_and_load_videos mx tr = Scanning v n \<and> no_growth a' \<and> no_growth b' \<and> no_growth c' \<longrightarrow>
            (\<exists>rest'. scroll_and_load_videos mx (tr @ [a', b', c'] @ later) = Returned v rest'
               \<and> suffix later rest'))
       \<and> (scroll_and_load_videos mx tr = Scanning v n \<and> i < f \<and> int f < mx \<longrightarrow>
            scroll_and_load_videos mx (tr @ [Scan i f]) = Scanning f 0)
       \<and> (scroll_and_load_videos mx tr = Scanning v n \<and> i < f \<and> mx \<le> int f \<longrightarrow>
            scroll_and_load_videos mx (tr @ Scan i f # later) = Returned f later)
       \<and> (scroll_and_load_videos mx tr = Scanning v n \<longrightarrow>
            scroll_and_load_videos mx (tr @ Raised # later) = Returned 0 later)"
proof (intro conjI impI)
  assume "scroll_and_load_videos mx tr = Returned v rest"
  then show "\<exists>pre a b c. tr = pre @ [a, b, c] @ rest \<and> no_growth a \<and> no_growth b \<and> no_growth c
               \<and> scroll_and_load_videos mx (pre @ [a, b]) = Scanning v 2"
    using scroll_loop_stall_count[OF assms(2) assms(1)] by blast
next
  assume "scroll_and_load_videos mx tr = Scanning v n \<and> no_growth a' \<and> no_growth b' \<and> no_growth c'"
  then show "\<exists>rest'. scroll_and_load_videos mx (tr @ [a', b', c'] @ later) = Returned v rest'
               \<and> suffix later rest'"
    using scroll_three_stalls_return[of mx tr v n a' b' c' later] by blast
next
  assume h: "scroll_and_load_videos mx tr = Scanning v n \<and> i < f \<and> int f < mx"
  then have "scroll_and_load_videos mx (tr @ Scan i f # []) = scroll_loop mx [] f 0"
    using scroll_growth_step[of mx tr v n i f "[]"] by blast
  with h show "scroll_and_load_videos mx (tr @ [Scan i f]) = Scanning f 0"
    by (simp add: max_no_new_videos_def)
next
  assume h: "scroll_and_load_videos mx tr = Scanning v n \<and> i < f \<and> mx \<le> int f"
  then have "scroll_and_load_videos mx (tr @ Scan i f # later) = scroll_loop mx later f 0"
    using scroll_growth_step[of mx tr v n i f later] by blast
  with h show "scroll_and_load_videos mx (tr @ Scan i f # later) = Returned f later"
    by (simp add: scroll_loop_exit)
next
  assume "scroll_and_load_videos mx tr = Scanning v n"
  then show "scroll_and_load_videos mx (tr @ Raised # later) = Returned 0 later"
    by (rule scroll_raise_step)
qed

theorem scroll_stops_at_third_stall_witness:
  "(\<exists>pre a b c. [Scan 3 5, Scan 5 5, Scan 5 5, Scan 5 5, Scan 5 9] = pre @ [a, b, c] @ [Scan 5 9]
       \<and> no_growth a \<and> no_growth b \<and> no_growth c
       \<and> scroll_and_load_videos 100 (pre @ [a, b]) = Scanning 5 2)
   \<and> (\<exists>rest'. scroll_and_load_videos 100 ([Scan 3 5, Scan 5 5] @ [Scan 5 5, Scan 5 5, Scan 5 5] @ [Scan 5 9])
         = Returned 5 rest' \<and> suffix [Scan 5 9] rest')
   \<and> scroll_and_load_videos 100 ([Scan 3 5, Scan 5 5] @ [Scan 5 9]) = Scanning 9 0
   \<and> scroll_and_load_videos 100 ([Scan 3 5, Scan 5 5] @ Scan 5 120 # [Scan 120 120]) = Returned 120 [Scan 120 120]
   \<and> scroll_and_load_videos 100 ([Scan 3 5, Scan 5 5] @ Raised # [Scan 5 9]) = Returned 0 [Scan 5 9]"
proof -
  have cap: "(0::int) < 100" by simp
  have g1: "\<forall>s \<in> set [Scan 3 5, Scan 5 5, Scan 5 5, Scan 5 5, Scan 5 9]. below_cap 100 s" by simp
  have g2: "\<forall>s \<in> set [Scan 3 5, Scan 5 5]. below_cap 100 s" by simp
  have r1: "scroll_and_load_videos 100 [Scan 3 5, Scan 5 5, Scan 5 5, Scan 5 5, Scan 5 9] = Returned 5 [Scan 5 9]"
    by (simp add: scroll_and_load_videos_def max_no_new_videos_def)
  have r2: "scroll_and_load_videos 100 [Scan 3 5, Scan 5 5] = Scanning 5 1"
    by (simp add: scroll_and_load_videos_def max_no_new_videos_def)
  have ng: "no_growth (Scan 5 5)" by simp
  note A = scroll_stops_at_third_stall[OF cap g1, of 5 "[Scan 5 9]"]
  note B = scroll_stops_at_third_stall[OF cap g2, of 5 "[]" 1 "Scan 5 5" "Scan 5 5" "Scan 5 5" "[Scan 5 9]" 5 9]
  note C = scroll_stops_at_third_stall[OF cap g2, of 5 "[]" 1 "Scan 5 5" "Scan 5 5" "Scan 5 5" "[Scan 120 120]" 5 120]
  from A r1 have a: "\<exists>pre a b c. [Scan 3 5, Scan 5 5, Scan 5 5, Scan 5 5, Scan 5 9] = pre @ [a, b, c] @ [Scan 5 9]
       \<and> no_growth a \<and> no_growth b \<and> no_growth c
       \<and> scroll_and_load_videos 100 (pre @ [a, b]) = Scanning 5 2" by blast
  from B r2 ng have b: "\<exists>rest'. scroll_and_load_videos 100 ([Scan 3 5, Scan 5 5] @ [Scan 5 5, Scan 5 5, Scan 5 5] @ [Scan 5 9])
         = Returned 5 rest' \<and> suffix [Scan 5 9] rest'" by blast
  from B r2 have c: "scroll_and_load_videos 100 ([Scan 3 5, Scan 5 5] @ [Scan 5 9]) = Scanning 9 0" by simp
  from C r2 have d: "scroll_and_load_videos 100 ([Scan 3 5, Scan 5 5] @ Scan 5 120 # [Scan 120 120]) = Returned 120 [Scan 120 120]"
    by simp
  from B r2 have e: "scroll_and_load_videos 100 ([Scan 3 5, Scan 5 5] @ Raised # [Scan 5 9]) = Returned 0 [Scan 5 9]"
    by blast
  from a b c d e show ?thesis by blast
qed

text \<open>
  Claim C1 as stated speaks of every run. In this run the first scroll loads two more items
  and the second scroll raises: the visible count never reaches the cap of 100, yet the
  function returns, and returns 0, with no scan without growth behind it.
\<close>

theorem scroll_claim_counterexample:
  "scroll_and_load_videos 100 [Scan 3 5, Raised] = Returned 0 []
   \<and> \<not> (\<exists>pre a b c. [Scan 3 5, Raised] = pre @ [a, b, c] @ [] \<and> no_growth a \<and> no_growth b \<and> no_growth c)"
  by (simp add: scroll_and_load_videos_def max_no_new_videos_def append_eq_Cons_conv)

text \<open>
  Claim C2. Five items are visible from the start and no scroll loads later: after the third
  scan the function returns 0, not the 5 items that are visible.
\<close>

theorem scroll_returns_zero_with_items_visible:
  "scroll_and_load_videos 100 [Scan 5 5, Scan 5 5, Scan 5 5] = Returned 0 []"
  by (simp add: scroll_and_load_videos_def max_no_new_videos_def)

section \<open>Properties of the string operations and of the identifier\<close>



lemma py_in_Cons_iff: "py_in sub (c # cs) = (prefix sub (c # cs) \<or> py_in sub cs)"
  by simp












text \<open>
  The dictionary that \<open>extract_video_data\<close> builds holds another identifier,
  \<open>video_url.split('/')[-1]\<close>, which keeps the query string. It is read by a debug log line
  only: the committed row takes its identifier from \<open>_process_video_data\<close>, as above.
\<close>

lemma extract_video_data_raw_id:
  "map_option video_id
     (extract_video_data ''u'' ''t''
        \<lparr>found_url = Some ''https://www.tiktok.com/@u/video/7301234567890123456?lang=fr'',
         found_views = ''0'', found_thumbnail = []\<rparr>)
     = Some ''7301234567890123456?lang=fr''"
  by (simp add: extract_video_data_def py_index_def)

lemma replace_occurrences_char:
  "replace_occurrences [x] [] s = filter (\<lambda>c. c \<noteq> x) s"
  by (induction "[x]" "[] :: string" s rule: replace_occurrences.induct) auto

text \<open>
  Claim C10. The profile URL is the fixed prefix followed by the username without its
  \<open>@\<close> characters; a leading \<open>@\<close> before a handle that has none changes nothing.
\<close>

theorem profile_url_strips_at:
  "get_tiktok_profile_url username
     = ''https://www.tiktok.com/@'' @ filter (\<lambda>c. c \<noteq> CHR ''@'') username
   \<and> (CHR ''@'' \<notin> set u \<longrightarrow>
        get_tiktok_profile_url (''@'' @ u) = get_tiktok_profile_url u
        \<and> get_tiktok_profile_url u = ''https://www.tiktok.com/@'' @ u)"
proof -
  have eq: "\<And>s. get_tiktok_profile_url s
      = ''https://www.tiktok.com/@'' @ filter (\<lambda>c. c \<noteq> CHR ''@'') s"
    by (simp add: get_tiktok_profile_url_def py_replace_def replace_occurrences_char
        del: replace_occurrences.simps)
  have "CHR ''@'' \<notin> set u \<Longrightarrow> filter (\<lambda>c. c \<noteq> CHR ''@'') u = u"
    by (induction u) auto
  then show ?thesis by (simp add: eq)
qed

theorem profile_url_strips_at_witness:
  "CHR ''@'' \<notin> set ''hugodecrypte''
   \<and> get_tiktok_profile_url ''@hugodecrypte'' = ''https://www.tiktok.com/@hugodecrypte''
   \<and> get_tiktok_profile_url ''hugodecrypte'' = ''https://www.tiktok.com/@hugodecrypte''
   \<and> get_tiktok_profile_url ''@hugo@decrypte'' = ''https://www.tiktok.com/@hugodecrypte''"
proof -
  have h: "CHR ''@'' \<notin> set ''hugodecrypte''" by simp
  have a: "get_tiktok_profile_url (''@'' @ ''hugodecrypte'') = get_tiktok_profile_url ''hugodecrypte''"
    and b: "get_tiktok_profile_url ''hugodecrypte'' = ''https://www.tiktok.com/@'' @ ''hugodecrypte''"
    using profile_url_strips_at[of "''hugodecrypte''" "''hugodecrypte''"] h by blast+
  have c: "get_tiktok_profile_url ''@hugo@decrypte''
      = ''https://www.tiktok.com/@'' @ filter (\<lambda>c. c \<noteq> CHR ''@'') ''@hugo@decrypte''"
    using profile_url_strips_at[of "''@hugo@decrypte''" "[]"] by blast
  from h a b c show ?thesis by simp
qed

section \<open>Properties of the numeric normalizer\<close>

lemma char_of_minus: "char_of (m::nat) = CHR ''-'' \<Longrightarrow> m mod 256 = 45"
proof -
  assume "char_of m = CHR ''-''"
  then have "(of_char (char_of m) :: nat) = of_char CHR ''-''" by (rule arg_cong)
  moreover have "(of_char CHR ''-'' :: nat) = 45" by simp
  ultimately show ?thesis by (simp only: of_char_of)
qed

lemma shifted_code_not_minus:
  fixes n :: nat
  assumes "64 < n - 32" and "n \<le> 254"
  shows "char_of (n - 32) \<noteq> CHR ''-''"
proof
  assume "char_of (n - 32) = CHR ''-''"
  then have m: "(n - 32) mod 256 = 45" by (rule char_of_minus)
  have "n - 32 < 256" using assms(2) by simp
  then have "(n - 32) mod 256 = n - 32" by (rule mod_less)
  with m assms(1) show False by simp
qed

lemma upper_char_minus:
  assumes "CHR ''-'' \<in> set (upper_char c)"
  shows "c = CHR ''-''"
proof -
  define n where "n = (of_char c :: nat)"
  have u: "upper_char c =
      (if 97 \<le> n \<and> n \<le> 122 then [char_of (n - 32)]
       else if 224 \<le> n \<and> n \<le> 254 \<and> n \<noteq> 247 then [char_of (n - 32)]
       else if n = 223 then ''SS''
       else [c])"
    unfolding upper_char_def Let_def n_def by (rule refl)
  show ?thesis
  proof (cases "97 \<le> n \<and> n \<le> 122")
    case True
    with u assms have "char_of (n - 32) = CHR ''-''" by simp
    moreover have "64 < n - 32" "n \<le> 254" using True by linarith+
    ultimately show ?thesis using shifted_code_not_minus by blast
  next
    case False
    show ?thesis
    proof (cases "224 \<le> n \<and> n \<le> 254 \<and> n \<noteq> 247")
      case True
      with False u assms have "char_of (n - 32) = CHR ''-''" by simp
      moreover have "64 < n - 32" "n \<le> 254" using True by linarith+
      ultimately show ?thesis using shifted_code_not_minus by blast
    next
      case F2: False
      have "upper_char c = (if n = 223 then ''SS'' else [c])"
        by (subst u) (simp only: if_not_P[OF False] if_not_P[OF F2])
      with assms show ?thesis by (cases "n = 223") simp_all
    qed
  qed
qed

lemma py_upper_minus: "CHR ''-'' \<in> set (py_upper s) \<Longrightarrow> CHR ''-'' \<in> set s"
  by (auto simp: py_upper_def dest: upper_char_minus)

lemma set_replace_occurrences: "set (replace_occurrences old [] s) \<subseteq> set s"
proof (induction old "[] :: string" s rule: replace_occurrences.induct)
  case (1 old)
  show ?case by simp
next
  case (2 old c cs)
  show ?case
  proof (cases "old \<noteq> [] \<and> prefix old (c # cs)")
    case True
    then have "set (replace_occurrences old [] (c # cs))
        = set (replace_occurrences old [] (drop (length old) (c # cs)))" by simp
    also have "\<dots> \<subseteq> set (drop (length old) (c # cs))" using 2(1) True by simp
    also have "\<dots> \<subseteq> set (c # cs)" by (rule set_drop_subset)
    finally show ?thesis .
  next
    case False
    then show ?thesis using 2(2) by auto
  qed
qed

lemma set_py_replace: "old \<noteq> [] \<Longrightarrow> set (py_replace old [] s) \<subseteq> set s"
  by (simp add: py_replace_def set_replace_occurrences)

lemma set_py_strip: "set (py_strip s) \<subseteq> set s"
proof -
  have "set (py_strip s) = set (dropWhile py_isspace (rev (dropWhile py_isspace s)))"
    by (simp add: py_strip_def)
  also have "\<dots> \<subseteq> set (rev (dropWhile py_isspace s))" by (auto dest: set_dropWhileD)
  also have "\<dots> \<subseteq> set s" by (auto dest: set_dropWhileD)
  finally show ?thesis .
qed

lemma set_drop_underscores: "drop_underscores prev s = Some u \<Longrightarrow> set u \<subseteq> set s"
proof (induction s arbitrary: prev u)
  case Nil
  then show ?case by (simp split: if_splits)
next
  case (Cons c cs)
  then show ?case by (fastforce split: if_splits option.splits)
qed

lemma digit_value_nonneg: "ascii_digit c \<Longrightarrow> 0 \<le> digit_value c"
proof -
  assume "ascii_digit c"
  then have "48 \<le> (of_char c :: nat)" by (simp add: ascii_digit_def)
  then have "int 48 \<le> int (of_char c)" by (simp only: of_nat_le_iff)
  then have "48 \<le> (of_char c :: int)" by (simp add: of_nat_of_char)
  then show ?thesis by (simp add: digit_value_def)
qed

lemma foldl_digits_nonneg:
  "list_all ascii_digit ds \<Longrightarrow> 0 \<le> acc \<Longrightarrow> 0 \<le> foldl (\<lambda>n c. 10 * n + digit_value c) acc ds"
proof (induction ds arbitrary: acc)
  case Nil
  then show ?case by simp
next
  case (Cons c ds)
  then have "0 \<le> 10 * acc + digit_value c" using digit_value_nonneg[of c] by simp
  with Cons show ?case by simp
qed

lemma digits_value_nonneg: "list_all ascii_digit ds \<Longrightarrow> 0 \<le> digits_value ds"
  by (simp add: digits_value_def foldl_digits_nonneg)

lemma unsigned_int_literal_nonneg: "unsigned_int_literal s = Some n \<Longrightarrow> 0 \<le> n"
  by (auto simp: unsigned_int_literal_def digits_value_nonneg split: list.splits if_splits option.splits)

lemma py_int_nonneg:
  assumes "CHR ''-'' \<notin> set s" and "py_int s = Inr n"
  shows "0 \<le> n"
proof -
  have "CHR ''-'' \<notin> set (py_strip s)" using assms(1) set_py_strip[of s] by auto
  then show ?thesis using assms(2)
    by (cases "py_strip s")
       (auto simp: py_int_def Let_def split: option.splits if_splits dest: unsigned_int_literal_nonneg)
qed

lemma decimal_literal_nonneg: "decimal_literal s = Some q \<Longrightarrow> 0 \<le> q"
proof -
  assume h: "decimal_literal s = Some q"
  have d: "\<And>xs ys. 0 \<le> digits_value (takeWhile ascii_digit xs @ takeWhile ascii_digit ys)"
    by (rule digits_value_nonneg) (simp add: list_all_iff; blast dest: set_takeWhileD)
  have d0: "\<And>xs. 0 \<le> digits_value (takeWhile ascii_digit xs @ [])"
    by (rule digits_value_nonneg) (simp add: list_all_iff; blast dest: set_takeWhileD)
  have p: "\<And>k. (0::rat) < 10 powi k" by simp
  from h obtain m k where q: "q = of_int m * 10 powi k" and m: "0 \<le> m"
    using d d0
    by (auto simp: decimal_literal_def Let_def split: list.splits if_splits option.splits prod.splits)
  have "0 \<le> (of_int m :: rat)" using m by simp
  then show ?thesis unfolding q using p[of k] by (simp add: mult_nonneg_nonneg less_imp_le)
qed

lemma round_half_even_nonneg: "0 \<le> x \<Longrightarrow> 0 \<le> round_half_even x"
proof -
  assume "0 \<le> x"
  then have "0 \<le> \<lfloor>x\<rfloor>" by simp
  then show ?thesis by (simp add: round_half_even_def Let_def)
qed

lemma round_binary64_nonneg: "0 \<le> x \<Longrightarrow> fp_nonneg (round_binary64 x)"
proof (cases "x = 0")
  case True
  then show ?thesis by (simp add: round_binary64_def)
next
  case False
  assume "0 \<le> x"
  with False have pos: "0 < x" by simp
  define ulp :: rat where "ulp = 2 powi (max (floor_log2 \<bar>x\<bar>) (- 1022) - 52)"
  have u: "0 < ulp" by (simp add: ulp_def)
  have "0 \<le> \<bar>x\<bar> / ulp" using u by simp
  then have "0 \<le> round_half_even (\<bar>x\<bar> / ulp)" by (rule round_half_even_nonneg)
  then have r: "0 \<le> of_int (round_half_even (\<bar>x\<bar> / ulp)) * ulp" using u by simp
  show ?thesis
    using pos r by (simp add: round_binary64_def Let_def ulp_def)
qed

lemma fp_times_int_nonneg: "fp_nonneg x \<Longrightarrow> 0 < c \<Longrightarrow> fp_nonneg (fp_times_int x c)"
  by (cases x) (simp_all add: fp_times_int_def round_binary64_nonneg)

lemma int_of_fp_nonneg: "fp_nonneg x \<Longrightarrow> int_of_fp x = Inr n \<Longrightarrow> 0 \<le> n"
  by (cases x) (auto simp: int_of_fp_def)

lemma py_float_nonneg:
  assumes "CHR ''-'' \<notin> set s" and "py_float s = Inr x"
  shows "fp_nonneg x"
proof -
  obtain u where u: "(if CHR ''_'' \<in> set s then drop_underscores None s else Some s) = Some u"
    using assms(2) by (auto simp: py_float_def split: option.splits)
  then have "set u \<subseteq> set s" by (auto split: if_splits dest: set_drop_underscores)
  then have nm: "CHR ''-'' \<notin> set (py_strip u)" using assms(1) set_py_strip[of u] by auto
  show ?thesis
  proof (cases "py_strip u")
    case Nil
    then show ?thesis using assms(2) u
      by (auto simp: py_float_def Let_def split: if_splits option.splits dest: decimal_literal_nonneg round_binary64_nonneg)
  next
    case (Cons c cs)
    with nm have c: "c \<noteq> CHR ''-''" by auto
    show ?thesis using assms(2) u Cons c
      by (auto simp: py_float_def Let_def split: if_splits option.splits
          dest!: decimal_literal_nonneg intro: round_binary64_nonneg)
  qed
qed

lemma scaled_float_nonneg:
  "CHR ''-'' \<notin> set s \<Longrightarrow> 0 < c \<Longrightarrow> scaled_float s c = Inr n \<Longrightarrow> 0 \<le> n"
  by (auto simp: scaled_float_def split: sum.splits
      dest!: py_float_nonneg intro: int_of_fp_nonneg fp_times_int_nonneg)

lemma convert_count_nonneg:
  assumes "CHR ''-'' \<notin> set t" and "convert_count t = Inr n"
  shows "0 \<le> n"
proof -
  have r: "\<And>old. old \<noteq> [] \<Longrightarrow> CHR ''-'' \<notin> set (py_replace old [] t)"
    using assms(1) set_py_replace by blast
  consider (K) "py_in ''K'' t" "scaled_float (py_replace ''K'' [] t) 1000 = Inr n"
    | (M) "py_in ''M'' t" "scaled_float (py_replace ''M'' [] t) 1000000 = Inr n"
    | (B) "py_in ''B'' t" "scaled_float (py_replace ''B'' [] t) 1000000000 = Inr n"
    | (I) "py_int t = Inr n"
    using assms(2) by (auto simp: convert_count_def split: if_splits)
  then show ?thesis
  proof cases
    case K
    show ?thesis by (rule scaled_float_nonneg[OF r[of "''K''"] _ K(2)]) simp_all
  next
    case M
    show ?thesis by (rule scaled_float_nonneg[OF r[of "''M''"] _ M(2)]) simp_all
  next
    case B
    show ?thesis by (rule scaled_float_nonneg[OF r[of "''B''"] _ B(2)]) simp_all
  next
    case I
    show ?thesis by (rule py_int_nonneg[OF assms(1) I])
  qed
qed

lemma format_number_nonneg:
  assumes "CHR ''-'' \<notin> set s" and "format_number s = Inr n"
  shows "0 \<le> n"
proof (cases "s = []")
  case True
  with assms(2) show ?thesis by (simp add: format_number_def)
next
  case False
  let ?t = "py_replace '' '' [] (py_replace '','' [] (py_upper s))"
  have "CHR ''-'' \<notin> set (py_upper s)" using assms(1) py_upper_minus by blast
  then have "CHR ''-'' \<notin> set (py_replace '','' [] (py_upper s))"
    using set_py_replace[of "'',''" "py_upper s"] by auto
  then have t: "CHR ''-'' \<notin> set ?t"
    using set_py_replace[of "'' ''" "py_replace '','' [] (py_upper s)"] by auto
  show ?thesis
  proof (cases "convert_count ?t")
    case (Inl e)
    with assms(2) False show ?thesis
      by (cases e) (simp_all add: format_number_def)
  next
    case (Inr m)
    with assms(2) False have "n = m" by (simp add: format_number_def)
    with Inr t show ?thesis using convert_count_nonneg by blast
  qed
qed

lemma format_number_values:
  "format_number ''0'' = Inr 0"
  "format_number ''1.2K'' = Inr 1200"
  "format_number ''5.5M'' = Inr 5500000"
  "format_number '''' = Inr 0"
  "format_number ''garbage'' = Inr 0"
  "format_number ''2B'' = Inr 2000000000"
  "format_number ''1.999K'' = Inr 1999"
  "format_number ''1.005K'' = Inr 1004"
  "format_number ''-5'' = Inr (- 5)"
  "format_number ''infK'' = Inl OverflowError"
  by code_simp+

lemma product_below_1005:
  "(case py_float ''1.005'' of
      Inr x \<Rightarrow> (case fp_times_int x 1000 of Finite q \<Rightarrow> 1004 + 1 / 2 < q \<and> q < 1005 | _ \<Rightarrow> False)
    | Inl e \<Rightarrow> False)"
  by code_simp

text \<open>
  The six values that the spec lists for the normalizer hold (\<open>garbage\<close> has a \<open>B\<close> once in
  upper case, so it goes through \<open>float\<close>, which rejects it).
\<close>

lemma format_number_examples:
  "format_number ''0'' = Inr 0 \<and> format_number ''1.2K'' = Inr 1200
   \<and> format_number ''5.5M'' = Inr 5500000 \<and> format_number '''' = Inr 0
   \<and> format_number ''garbage'' = Inr 0 \<and> format_number ''2B'' = Inr 2000000000"
  by (simp add: format_number_values)

lemma format_number_parse_failure:
  "text \<noteq> [] \<Longrightarrow>
   convert_count (py_replace '' '' [] (py_replace '','' [] (py_upper text))) = Inl ValueError \<Longrightarrow>
   format_number text = Inr 0"
  by (simp add: format_number_def)

text \<open>
  Claim C5. The text \<open>infK\<close> is not a count. \<open>float\<close> reads \<open>INF\<close> as the infinity, whose
  \<open>int\<close> raises \<open>OverflowError\<close>, which the \<open>except\<close> clause does not list: the exception
  leaves \<open>format_number\<close>, and \<open>add_video_data\<close>, which catches it, drops the whole record.
\<close>

theorem format_number_overflow_raises:
  "format_number ''infK'' = Inl OverflowError
   \<and> add_video_data ''u'' ''2025-01-01T00:00:00'' []
        \<lparr>video_id = ''7301234567890123456'',
         video_url = ''https://www.tiktok.com/@u/video/7301234567890123456'',
         views_count = ''infK'', thumbnail_url = [], account_username = ''u'',
         scraped_at = ''2025-01-01T00:00:00'', description = [],
         likes_count = ''0'', comments_count = ''0''\<rparr> = ([], False)"
  by (simp add: add_video_data_def process_video_data_def format_number_values)

text \<open>
  Claim C6 (as amended). The normalizer truncates the float product and does not round it:
  for \<open>1.005K\<close> the binary64 product lies between 1004.5 and 1005, and the result is 1004,
  one below the exact 1005. The example of the spec is not such a case: for \<open>1.999K\<close> the
  result is 1999.
\<close>

theorem format_number_truncates:
  "format_number ''1.005K'' = Inr 1004
   \<and> (case py_float ''1.005'' of
        Inr x \<Rightarrow> (case fp_times_int x 1000 of Finite q \<Rightarrow> 1004 + 1 / 2 < q \<and> q < 1005 | _ \<Rightarrow> False)
      | Inl e \<Rightarrow> False)
   \<and> format_number ''1.999K'' = Inr 1999"
  using product_below_1005 by (simp add: format_number_values)

text \<open>Claim C6 as stated: \<open>1.999K\<close> does not give 1998.\<close>

theorem format_number_1999K_counterexample:
  "format_number ''1.999K'' \<noteq> Inr 1998"
  by (simp add: format_number_values)

text \<open>
  Claim C8 (as amended). For a text without a minus sign, what \<open>format_number\<close> returns is
  an integer from 0 up; so the three counts of a row that \<open>_process_video_data\<close> builds are
  integers from 0 up when none of the three count texts has a minus sign.
\<close>

theorem counts_nonneg_without_minus:
  "(CHR ''-'' \<notin> set s \<and> format_number s = Inr n \<longrightarrow> 0 \<le> n)
   \<and> (CHR ''-'' \<notin> set (views_count raw_data) \<and> CHR ''-'' \<notin> set (likes_count raw_data)
        \<and> CHR ''-'' \<notin> set (comments_count raw_data)
        \<and> process_video_data tiktok_username now raw_data = Inr row
      \<longrightarrow> 0 \<le> row_views_count row \<and> 0 \<le> row_likes_count row \<and> 0 \<le> row_comments_count row)"
proof -
  have first: "0 \<le> n" if "CHR ''-'' \<notin> set s \<and> format_number s = Inr n"
    using that format_number_nonneg by blast
  have second: "0 \<le> row_views_count row \<and> 0 \<le> row_likes_count row \<and> 0 \<le> row_comments_count row"
    if h: "CHR ''-'' \<notin> set (views_count raw_data) \<and> CHR ''-'' \<notin> set (likes_count raw_data)
        \<and> CHR ''-'' \<notin> set (comments_count raw_data)
        \<and> process_video_data tiktok_username now raw_data = Inr row"
  proof -
    from h obtain v l c where
      v: "format_number (views_count raw_data) = Inr v" and
      l: "format_number (likes_count raw_data) = Inr l" and
      c: "format_number (comments_count raw_data) = Inr c" and
      row: "row_views_count row = v" "row_likes_count row = l" "row_comments_count row = c"
      by (auto simp: process_video_data_def split: sum.splits)
    from h v l c have "0 \<le> v" "0 \<le> l" "0 \<le> c"
      using format_number_nonneg by blast+
    with row show ?thesis by simp
  qed
  from first second show ?thesis by blast
qed

theorem counts_nonneg_without_minus_witness:
  "CHR ''-'' \<notin> set ''1.2K'' \<and> format_number ''1.2K'' = Inr 1200 \<and> (0::int) \<le> 1200
   \<and> (\<exists>row. process_video_data ''u'' ''2025-01-01T00:00:00''
          \<lparr>video_id = ''7301234567890123456'',
           video_url = ''https://www.tiktok.com/@u/video/7301234567890123456'',
           views_count = ''1.2K'', thumbnail_url = [], account_username = ''u'',
           scraped_at = ''2025-01-01T00:00:00'', description = [],
           likes_count = ''0'', comments_count = ''0''\<rparr> = Inr row
        \<and> 0 \<le> row_views_count row \<and> 0 \<le> row_likes_count row \<and> 0 \<le> row_comments_count row)"
proof -
  let ?raw = "\<lparr>video_id = ''7301234567890123456'',
           video_url = ''https://www.tiktok.com/@u/video/7301234567890123456'',
           views_count = ''1.2K'', thumbnail_url = [], account_username = ''u'',
           scraped_at = ''2025-01-01T00:00:00'', description = [],
           likes_count = ''0'', comments_count = ''0''\<rparr>"
  have m: "CHR ''-'' \<notin> set ''1.2K''" "CHR ''-'' \<notin> set ''0''" by simp_all
  have f: "format_number ''1.2K'' = Inr 1200" by (simp add: format_number_values)
  obtain row where row: "process_video_data ''u'' ''2025-01-01T00:00:00'' ?raw = Inr row"
    by (simp add: process_video_data_def format_number_values)
  note T = counts_nonneg_without_minus[of "''1.2K''" 1200 ?raw "''u''" "''2025-01-01T00:00:00''" row]
  from T m f have a: "(0::int) \<le> 1200" by blast
  from T m row have b: "0 \<le> row_views_count row \<and> 0 \<le> row_likes_count row \<and> 0 \<le> row_comments_count row"
    by simp
  from m f a row b show ?thesis by blast
qed

text \<open>Claim C8 as stated: a text with a leading minus sign gives a negative count.\<close>

theorem format_number_negative_counterexample:
  "format_number ''-5'' = Inr (- 5) \<and> \<not> (0::int) \<le> - 5"
  by (simp add: format_number_values)

section \<open>Properties of the retry loop\<close>

declare retry_loop.simps [simp del]

lemma retry_loop_always_raising:
  assumes fails: "\<forall>k < n. func k = Raises (e k)" and small: "n \<le> 1025"
  shows "a \<le> n \<Longrightarrow>
    retry_loop func (int n) b a prev evs =
      \<lparr>outcome = Inl (if a < n then Operation_error (e (n - 1))
                      else (case prev of None \<Rightarrow> TypeError_raised | Some x \<Rightarrow> Operation_error x)),
       events = evs @ concat (map (\<lambda>k. [Invoke k, Sleep (fp_times_int b (2 ^ k))]) [a ..< n - 1])
                @ (if a < n then [Invoke (n - 1)] else [])\<rparr>"
proof (induction "n - a" arbitrary: a prev evs)
  case 0
  then have "a = n" by simp
  then show ?case by (simp add: retry_loop.simps[of func "int n" b n])
next
  case (Suc d)
  then have lt: "a < n" and d: "d = n - (a + 1)" and le: "a + 1 \<le> n" by simp_all
  have f: "func a = Raises (e a)" using fails lt by simp
  note IH = Suc.hyps(1)[OF d le]
  show ?case
  proof (cases "a + 1 < n")
    case True
    then have up: "[a ..< n - 1] = a # [a + 1 ..< n - 1]"
      by (simp add: upt_conv_Cons)
    have "a < 1024" using True small by simp
    then have delay: "backoff_delay b a = Inr (fp_times_int b (2 ^ a))"
      by (simp add: backoff_delay_def)
    show ?thesis
      using True lt f delay up
        IH[of "Some (e a)" "evs @ [Invoke a, Sleep (fp_times_int b (2 ^ a))]"]
      by (simp add: retry_loop.simps[of func "int n" b a])
  next
    case False
    with lt have an: "a + 1 = n" by simp
    then have emp: "[a ..< n - 1] = []" by simp
    have nl: "\<not> int a < int n - 1" using an by simp
    have ea: "e (n - 1) = e a" and last: "n - 1 = a" using an by auto
    have "retry_loop func (int n) b (a + 1) (Some (e a)) (evs @ [Invoke a])
        = \<lparr>outcome = Inl (Operation_error (e a)), events = evs @ [Invoke a]\<rparr>"
      using IH[of "Some (e a)" "evs @ [Invoke a]"] False an by simp
    then show ?thesis
      using lt f nl emp ea last
      by (simp add: retry_loop.simps[of func "int n" b a])
  qed
qed

lemma backoff_delays_from_one:
  "fp_times_int (Finite 1) (2 ^ 0) = Finite 1"
  "fp_times_int (Finite 1) (2 ^ 1) = Finite 2"
  "fp_times_int (Finite 1) (2 ^ 2) = Finite 4"
  "fp_times_int (Finite 1) (2 ^ 3) = Finite 8"
  by code_simp+

lemma upt_four: "[0 ..< 4] = [0, 1, 2, 3 :: nat]"
  by code_simp

text \<open>
  Claim C3. Let the operation raise an \<open>Exception\<close> on each of its first \<open>n\<close> invocations,
  with \<open>max_retries = n\<close>, \<open>0 < n \<le> 1025\<close>. The run is: invocation 1, a sleep, invocation
  2, a sleep, ..., invocation \<open>n\<close>, and nothing else: \<open>n\<close> invocations, one sleep between
  each two consecutive ones, none after the last. The sleep before retry \<open>k\<close> (the one after
  invocation \<open>k\<close>) lasts the float product \<open>base_delay * 2 ^ (k - 1)\<close>. The exception that
  reaches the caller is that of invocation \<open>n\<close>. With five attempts and a base delay of 1
  the sleeps before attempts 2, 3, 4 and 5 last 1, 2, 4 and 8.
\<close>

theorem retry_exhausted:
  "(0 < n \<and> n \<le> 1025 \<and> (\<forall>k < n. func k = Raises (e k)) \<longrightarrow>
      execute_with_retry func (int n) base_delay =
        \<lparr>outcome = Inl (Operation_error (e (n - 1))),
         events = concat (map (\<lambda>k. [Invoke k, Sleep (fp_times_int base_delay (2 ^ k))]) [0 ..< n - 1])
                  @ [Invoke (n - 1)]\<rparr>)
   \<and> ((\<forall>k < 5. func k = Raises (e k)) \<longrightarrow>
      execute_with_retry func 5 (Finite 1) =
        \<lparr>outcome = Inl (Operation_error (e 4)),
         events = [Invoke 0, Sleep (Finite 1), Invoke 1, Sleep (Finite 2), Invoke 2,
                   Sleep (Finite 4), Invoke 3, Sleep (Finite 8), Invoke 4]\<rparr>)"
proof (intro conjI impI)
  assume h: "0 < n \<and> n \<le> 1025 \<and> (\<forall>k < n. func k = Raises (e k))"
  then show "execute_with_retry func (int n) base_delay =
        \<lparr>outcome = Inl (Operation_error (e (n - 1))),
         events = concat (map (\<lambda>k. [Invoke k, Sleep (fp_times_int base_delay (2 ^ k))]) [0 ..< n - 1])
                  @ [Invoke (n - 1)]\<rparr>"
    using retry_loop_always_raising[of n func e 0 base_delay None "[]"]
    by (simp add: execute_with_retry_def)
next
  assume h: "\<forall>k < 5. func k = Raises (e k)"
  have "retry_loop func (int 5) (Finite 1) 0 None [] =
      \<lparr>outcome = Inl (if (0::nat) < 5 then Operation_error (e (5 - 1))
                      else (case None of None \<Rightarrow> TypeError_raised | Some x \<Rightarrow> Operation_error x)),
       events = [] @ concat (map (\<lambda>k. [Invoke k, Sleep (fp_times_int (Finite 1) (2 ^ k))]) [0 ..< 5 - 1])
                @ (if (0::nat) < 5 then [Invoke (5 - 1)] else [])\<rparr>"
    by (rule retry_loop_always_raising[OF h]) simp_all
  then show "execute_with_retry func 5 (Finite 1) =
        \<lparr>outcome = Inl (Operation_error (e 4)),
         events = [Invoke 0, Sleep (Finite 1), Invoke 1, Sleep (Finite 2), Invoke 2,
                   Sleep (Finite 4), Invoke 3, Sleep (Finite 8), Invoke 4]\<rparr>"
    using backoff_delays_from_one
    by (simp add: execute_with_retry_def upt_four)
qed

theorem retry_exhausted_witness:
  "execute_with_retry (\<lambda>k. Raises (''timeout'', k) :: (string \<times> nat, unit) attempt_result) 5 (Finite 1) =
     \<lparr>outcome = Inl (Operation_error (''timeout'', 4)),
      events = [Invoke 0, Sleep (Finite 1), Invoke 1, Sleep (Finite 2), Invoke 2,
                Sleep (Finite 4), Invoke 3, Sleep (Finite 8), Invoke 4]\<rparr>
   \<and> execute_with_retry (\<lambda>k. Raises (''timeout'', k) :: (string \<times> nat, unit) attempt_result) (int 2) (Finite 3) =
     \<lparr>outcome = Inl (Operation_error (''timeout'', 1)),
      events = [Invoke 0, Sleep (fp_times_int (Finite 3) (2 ^ 0)), Invoke 1]\<rparr>"
proof -
  let ?f = "\<lambda>k. Raises (''timeout'', k) :: (string \<times> nat, unit) attempt_result"
  have five: "\<forall>k < 5. ?f k = Raises ((\<lambda>k. (''timeout'', k)) k)" by simp
  have two: "(0::nat) < 2 \<and> (2::nat) \<le> 1025 \<and> (\<forall>k < 2. ?f k = Raises ((\<lambda>k. (''timeout'', k)) k))" by simp
  have up: "[0 ..< 2 - 1] = [0::nat]" by simp
  from retry_exhausted[of 2 ?f "\<lambda>k. (''timeout'', k)" "Finite 3"] five two
  have a: "execute_with_retry ?f 5 (Finite 1) =
        \<lparr>outcome = Inl (Operation_error ((\<lambda>k. (''timeout'', k)) 4)),
         events = [Invoke 0, Sleep (Finite 1), Invoke 1, Sleep (Finite 2), Invoke 2,
                   Sleep (Finite 4), Invoke 3, Sleep (Finite 8), Invoke 4]\<rparr>"
    and b: "execute_with_retry ?f (int 2) (Finite 3) =
        \<lparr>outcome = Inl (Operation_error ((\<lambda>k. (''timeout'', k)) (2 - 1))),
         events = concat (map (\<lambda>k. [Invoke k, Sleep (fp_times_int (Finite 3) (2 ^ k))]) [0 ..< 2 - 1])
                  @ [Invoke (2 - 1)]\<rparr>"
    by blast+
  from a b show ?thesis by (simp add: up)
qed

end
